theory Spec2Isabelle
  imports Main "HOL-Library.Multiset"
begin

section \<open>Data model of \<open>OOP/order.py\<close>\<close>

text \<open>
  The three dataclasses of the module. Python's \<open>int\<close> is unbounded and may be
  negative (nothing validates the fields), so quantities and volumes are \<open>int\<close>.
  A dataclass compares by its fields, which is the equality of a record.
  \<open>Order.destination\<close> defaults to \<open>None\<close>, so it is a \<open>string option\<close>.
\<close>

record OrderItem =
  customer :: string
  name :: string
  quantity :: int
  one_item_volume :: int

text \<open>\<open>OrderItem.total_volume\<close>: \<open>self.quantity * self.one_item_volume\<close>.\<close>

definition OrderItem_total_volume :: "OrderItem \<Rightarrow> int" where
  "OrderItem_total_volume item = quantity item * one_item_volume item"

record Order =
  order_items :: "OrderItem list"
  destination :: "string option"

text \<open>\<open>Order.total_quantity\<close> and \<open>Order.total_volume\<close>: Python's \<open>sum\<close> over the items.\<close>

definition Order_total_quantity :: "Order \<Rightarrow> int" where
  "Order_total_quantity order = sum_list (map quantity (order_items order))"

definition Order_total_volume :: "Order \<Rightarrow> int" where
  "Order_total_volume order = sum_list (map OrderItem_total_volume (order_items order))"

record Container =
  volume :: int
  orders :: "Order list"

text \<open>\<open>Container.volume_left\<close>: \<open>self.volume - sum(order.total_volume for order in self.orders)\<close>.\<close>

definition volume_left :: "Container \<Rightarrow> int" where
  "volume_left c = volume c - sum_list (map Order_total_volume (orders c))"

section \<open>OrderAggregator\<close>

text \<open>
  The aggregator's state is its list \<open>self.order_items\<close>. The field is called
  \<open>pool_order_items\<close> here because \<open>order_items\<close> is already the field of \<open>Order\<close>.
\<close>

record OrderAggregator =
  pool_order_items :: "OrderItem list"

datatype py_error = ValueError

text \<open>
  A method that mutates the aggregator returns the new state. When it raises, the
  result is \<open>Inl\<close> of the exception together with the state as the exception left it
  (the mutations done before the raise stay).
\<close>

type_synonym 'a method_result = "(py_error \<times> OrderAggregator) + ('a \<times> OrderAggregator)"

definition OrderAggregator_init :: OrderAggregator where
  "OrderAggregator_init = \<lparr>pool_order_items = []\<rparr>"

text \<open>\<open>add_item\<close>: \<open>self.order_items.append(item)\<close>.\<close>

definition add_item :: "OrderItem \<Rightarrow> OrderAggregator \<Rightarrow> OrderAggregator" where
  "add_item item self = self\<lparr>pool_order_items := pool_order_items self @ [item]\<rparr>"

text \<open>
  Python's \<open>list.remove(x)\<close>: deletes the first element equal to \<open>x\<close>, and raises
  \<open>ValueError\<close> (here \<open>None\<close>) when there is none.
\<close>

fun list_remove :: "'a \<Rightarrow> 'a list \<Rightarrow> 'a list option" where
  "list_remove x [] = None"
| "list_remove x (y # ys) =
     (if y = x then Some ys else map_option ((#) y) (list_remove x ys))"

text \<open>
  \<open>remove_items\<close>: \<open>for item in items: self.order_items.remove(item)\<close>. What the loop
  does depends on which list object the caller passes: a list of its own, or the
  pool's list \<open>self.order_items\<close> itself, which the loop then changes while it
  iterates over it. The argument says which.
\<close>

datatype item_list = Separate "OrderItem list" | Pool_itself

text \<open>
  The loop over a list of the caller's own. It stops at the first item that is not
  in the pool; the items before it are already gone.
\<close>

fun remove_each :: "OrderItem list \<Rightarrow> OrderAggregator \<Rightarrow> unit method_result" where
  "remove_each [] self = Inr ((), self)"
| "remove_each (item # items) self =
     (case list_remove item (pool_order_items self) of
        None \<Rightarrow> Inl (ValueError, self)
      | Some rest \<Rightarrow> remove_each items (self\<lparr>pool_order_items := rest\<rparr>))"

lemma list_remove_length:
  "list_remove x xs = Some ys \<Longrightarrow> length xs = Suc (length ys)"
  by (induction xs arbitrary: ys) (auto split: if_splits)

text \<open>
  The loop over the pool's own list. Python's list iterator keeps an index \<open>i\<close>: it
  yields the element at \<open>i\<close> of the list as it is at that moment and advances, and it
  ends when \<open>i\<close> has reached the current length. Each \<open>remove\<close> shortens the list, so
  the loop skips elements.
\<close>

function remove_from_itself :: "nat \<Rightarrow> OrderAggregator \<Rightarrow> unit method_result" where
  "remove_from_itself i self =
     (if i < length (pool_order_items self)
      then (case list_remove (pool_order_items self ! i) (pool_order_items self) of
              None \<Rightarrow> Inl (ValueError, self)
            | Some rest \<Rightarrow> remove_from_itself (Suc i) (self\<lparr>pool_order_items := rest\<rparr>))
      else Inr ((), self))"
  by pat_completeness auto
termination
  by (relation "measure (\<lambda>(i, self). length (pool_order_items self) - i)")
     (auto dest: list_remove_length)

declare remove_from_itself.simps [simp del]

fun remove_items :: "item_list \<Rightarrow> OrderAggregator \<Rightarrow> unit method_result" where
  "remove_items (Separate items) self = remove_each items self"
| "remove_items Pool_itself self = remove_from_itself 0 self"

text \<open>
  \<open>aggregate_order\<close>. The list comprehension builds a new list \<open>items\<close>, a list
  object other than the pool, which the order keeps and \<open>remove_items\<close> only reads,
  so the order is not affected by the removal. \<open>Order(items)\<close> leaves the destination at its default \<open>None\<close>. The method
  returns \<open>None\<close> (no order) in the else branch.
\<close>

definition aggregate_order ::
  "string \<Rightarrow> int \<Rightarrow> int \<Rightarrow> OrderAggregator \<Rightarrow> (Order option) method_result" where
  "aggregate_order cust max_items_quantity max_volume self =
     (let items = filter (\<lambda>item. customer item = cust) (pool_order_items self);
          total_quantity = sum_list (map quantity items);
          total_volume = sum_list (map OrderItem_total_volume items)
      in if total_quantity \<le> max_items_quantity \<and> total_volume \<le> max_volume
         then (let order = \<lparr>order_items = items, destination = None\<rparr>
               in case remove_items (Separate items) self of
                    Inl err \<Rightarrow> Inl err
                  | Inr (u, self') \<Rightarrow> Inr (Some order, self'))
         else Inr (None, self))"

text \<open>The pending items of one customer, as the first line of \<open>aggregate_order\<close> selects them.\<close>

definition pending :: "string \<Rightarrow> OrderAggregator \<Rightarrow> OrderItem list" where
  "pending cust self = filter (\<lambda>item. customer item = cust) (pool_order_items self)"

text \<open>
  The caller's loop \<open>for item in items: aggregator.add_item(item)\<close>, over a list of
  the caller's own.
\<close>

definition add_each :: "OrderItem list \<Rightarrow> OrderAggregator \<Rightarrow> OrderAggregator" where
  "add_each items self = fold add_item items self"

section \<open>ContainerAggregator\<close>

record ContainerAggregator =
  container_volume :: int
  not_used_orders :: "Order list"

text \<open>\<open>__init__\<close>: the given volume, and an empty \<open>not_used_orders\<close>.\<close>

definition ContainerAggregator_init :: "int \<Rightarrow> ContainerAggregator" where
  "ContainerAggregator_init cv = \<lparr>container_volume = cv, not_used_orders = []\<rparr>"

text \<open>
  The local \<open>containers\<close> is a \<open>defaultdict(list)\<close>. A Python dictionary iterates in
  the order its keys were first inserted, so it is an association list in that order;
  a key is an order's destination, a string or \<open>None\<close>.
\<close>

type_synonym containers = "(string option \<times> Container list) list"

text \<open>
  Line 124 to 126, for one entry \<open>(destination, container_list)\<close> of the dictionary:
  \<open>next((c for c in container_list if order.total_volume <= c.volume_left
  and order.destination == destination), None)\<close> takes the first container of the
  list that satisfies the condition, and \<open>container.orders.append(order)\<close> changes that
  container where it stands. The result is the list after the append, or \<open>None\<close> when
  \<open>next\<close> gave its default. (A \<open>Container\<close> defines neither \<open>__bool__\<close> nor \<open>__len__\<close>,
  so \<open>if container:\<close> is true exactly when a container was found.)
\<close>

fun append_to_next :: "Order \<Rightarrow> string option \<Rightarrow> Container list \<Rightarrow> Container list option" where
  "append_to_next order dest [] = None"
| "append_to_next order dest (c # cs) =
     (if Order_total_volume order \<le> volume_left c \<and> destination order = dest
      then Some (c\<lparr>orders := orders c @ [order]\<rparr> # cs)
      else map_option ((#) c) (append_to_next order dest cs))"

text \<open>
  Line 123 to 128: the loop over \<open>containers.items()\<close>, left by \<open>break\<close> at the first
  entry in which a container was found. \<open>None\<close> stands for \<open>placed = False\<close>.
\<close>

fun scan_items :: "Order \<Rightarrow> containers \<Rightarrow> containers option" where
  "scan_items order [] = None"
| "scan_items order ((dest, container_list) # rest) =
     (case append_to_next order dest container_list of
        Some container_list' \<Rightarrow> Some ((dest, container_list') # rest)
      | None \<Rightarrow> map_option ((#) (dest, container_list)) (scan_items order rest))"

text \<open>
  Line 133, \<open>containers[key].append(container)\<close> on the \<open>defaultdict\<close>: an existing key
  gets the container at the end of its list; a missing key is inserted last, with
  the list of that one container.
\<close>

fun dict_append :: "containers \<Rightarrow> string option \<Rightarrow> Container \<Rightarrow> containers" where
  "dict_append [] key c = [(key, [c])]"
| "dict_append ((dest, container_list) # rest) key c =
     (if dest = key then (dest, container_list @ [c]) # rest
      else (dest, container_list) # dict_append rest key c)"

text \<open>The body of the loop \<open>for order in orders\<close> (line 122 to 133).\<close>

definition place_order :: "int \<Rightarrow> Order \<Rightarrow> containers \<Rightarrow> containers" where
  "place_order cv order cs =
     (case scan_items order cs of
        Some cs' \<Rightarrow> cs'
      | None \<Rightarrow> dict_append cs (destination order) \<lparr>volume = cv, orders = [order]\<rparr>)"

fun place_orders :: "int \<Rightarrow> Order list \<Rightarrow> containers \<Rightarrow> containers" where
  "place_orders cv [] cs = cs"
| "place_orders cv (order # rest) cs = place_orders cv rest (place_order cv order cs)"

text \<open>
  \<open>prepare_containers\<close>: the loop, started on the empty dictionary. Nothing in it
  can raise on orders of the declared types. It returns the dictionary; the
  aggregator is returned beside it, as the method left it.
\<close>

definition prepare_containers ::
  "ContainerAggregator \<Rightarrow> Order list \<Rightarrow> containers \<times> ContainerAggregator" where
  "prepare_containers self order_list =
     (place_orders (container_volume self) order_list [], self)"

text \<open>The containers registered under a destination (none when the key is missing).\<close>

definition bucket :: "containers \<Rightarrow> string option \<Rightarrow> Container list" where
  "bucket cs dest = (case map_of cs dest of None \<Rightarrow> [] | Some container_list \<Rightarrow> container_list)"

text \<open>All containers of the dictionary, and the number of orders they hold.\<close>

definition all_containers :: "containers \<Rightarrow> Container list" where
  "all_containers cs = concat (map snd cs)"

definition count_orders :: "containers \<Rightarrow> nat" where
  "count_orders cs = sum_list (map (\<lambda>c. length (orders c)) (all_containers cs))"

text \<open>
  Three properties of a dictionary of containers that the loop keeps: every order
  lies under its own destination; no container is overfull; no container has more
  room than \<open>cv\<close>.
\<close>

definition dest_ok :: "containers \<Rightarrow> bool" where
  "dest_ok cs = (\<forall>(dest, cl) \<in> set cs. \<forall>c \<in> set cl. \<forall>order \<in> set (orders c). destination order = dest)"

definition nonneg_left :: "containers \<Rightarrow> bool" where
  "nonneg_left cs = (\<forall>c \<in> set (all_containers cs). 0 \<le> volume_left c)"


section \<open>Removing a customer's items\<close>

lemma list_remove_absent:
  "x \<notin> set pre \<Longrightarrow> list_remove x (pre @ x # post) = Some (pre @ post)"
  by (induction pre) auto

text \<open>
  Removing the selected items one by one, each at its first occurrence, leaves the
  items that were not selected, in their order. The prefix \<open>pre\<close> holds the unselected
  items the loop has already passed.
\<close>

lemma remove_each_filter_gen:
  "\<forall>x \<in> set pre. \<not> P x \<Longrightarrow>
   remove_each (filter P xs) (self\<lparr>pool_order_items := pre @ xs\<rparr>) =
     Inr ((), self\<lparr>pool_order_items := pre @ filter (\<lambda>x. \<not> P x) xs\<rparr>)"
proof (induction xs arbitrary: pre)
  case Nil
  then show ?case by simp
next
  case (Cons a xs)
  show ?case
  proof (cases "P a")
    case True
    with Cons.prems have "a \<notin> set pre" by auto
    then have "list_remove a (pre @ a # xs) = Some (pre @ xs)"
      by (rule list_remove_absent)
    with True Cons.IH [OF Cons.prems] show ?thesis by simp
  next
    case False
    with Cons.prems have "\<forall>x \<in> set (pre @ [a]). \<not> P x" by auto
    from Cons.IH [OF this] False show ?thesis by simp
  qed
qed

lemma remove_each_filter:
  "remove_each (filter P (pool_order_items self)) self =
     Inr ((), self\<lparr>pool_order_items := filter (\<lambda>x. \<not> P x) (pool_order_items self)\<rparr>)"
  using remove_each_filter_gen [of "[]" P "pool_order_items self" self] by simp

section \<open>Claims about \<open>aggregate_order\<close>\<close>

text \<open>
  C1. For every customer and every pool: if the summed quantity of the customer's
  pending items is at most \<open>max_items_quantity\<close> and their summed total volume is at
  most \<open>max_volume\<close>, \<open>aggregate_order\<close> returns (without raising) an order holding
  exactly those items, and the pool afterwards is the old pool without the
  customer's items: none of them is left, and all other items are still there, in
  their order.
\<close>

theorem aggregate_order_within_limits:
  assumes "sum_list (map quantity (pending cust self)) \<le> max_items_quantity"
    and "sum_list (map OrderItem_total_volume (pending cust self)) \<le> max_volume"
  shows "aggregate_order cust max_items_quantity max_volume self =
           Inr (Some \<lparr>order_items = pending cust self, destination = None\<rparr>,
                self\<lparr>pool_order_items :=
                  filter (\<lambda>item. customer item \<noteq> cust) (pool_order_items self)\<rparr>)"
  using assms
  by (simp add: aggregate_order_def pending_def remove_each_filter)

theorem aggregate_order_within_limits_witness:
  "aggregate_order ''X'' 5 10
     \<lparr>pool_order_items =
        [\<lparr>customer = ''X'', name = ''a'', quantity = 2, one_item_volume = 3\<rparr>,
         \<lparr>customer = ''Y'', name = ''b'', quantity = 9, one_item_volume = 9\<rparr>,
         \<lparr>customer = ''X'', name = ''c'', quantity = 1, one_item_volume = 4\<rparr>]\<rparr> =
   Inr (Some \<lparr>order_items =
          [\<lparr>customer = ''X'', name = ''a'', quantity = 2, one_item_volume = 3\<rparr>,
           \<lparr>customer = ''X'', name = ''c'', quantity = 1, one_item_volume = 4\<rparr>],
          destination = None\<rparr>,
        \<lparr>pool_order_items =
          [\<lparr>customer = ''Y'', name = ''b'', quantity = 9, one_item_volume = 9\<rparr>]\<rparr>)"
  using aggregate_order_within_limits [of "''X''"
      "\<lparr>pool_order_items =
        [\<lparr>customer = ''X'', name = ''a'', quantity = 2, one_item_volume = 3\<rparr>,
         \<lparr>customer = ''Y'', name = ''b'', quantity = 9, one_item_volume = 9\<rparr>,
         \<lparr>customer = ''X'', name = ''c'', quantity = 1, one_item_volume = 4\<rparr>]\<rparr>" 5 10]
  by (simp add: pending_def OrderItem_total_volume_def)

text \<open>
  C2. For every customer and every pool: if the customer's pending items exceed a
  limit (summed quantity above \<open>max_items_quantity\<close>, or summed total volume above
  \<open>max_volume\<close>), \<open>aggregate_order\<close> returns no order and the aggregator, hence the
  pool, is the same as before the call.
\<close>

theorem aggregate_order_over_limit:
  assumes "max_items_quantity < sum_list (map quantity (pending cust self))
           \<or> max_volume < sum_list (map OrderItem_total_volume (pending cust self))"
  shows "aggregate_order cust max_items_quantity max_volume self = Inr (None, self)"
  using assms
  by (auto simp add: aggregate_order_def pending_def)

theorem aggregate_order_over_limit_witness:
  "aggregate_order ''X'' 5 9
     \<lparr>pool_order_items =
        [\<lparr>customer = ''X'', name = ''a'', quantity = 2, one_item_volume = 3\<rparr>,
         \<lparr>customer = ''X'', name = ''c'', quantity = 1, one_item_volume = 4\<rparr>]\<rparr> =
   Inr (None,
     \<lparr>pool_order_items =
        [\<lparr>customer = ''X'', name = ''a'', quantity = 2, one_item_volume = 3\<rparr>,
         \<lparr>customer = ''X'', name = ''c'', quantity = 1, one_item_volume = 4\<rparr>]\<rparr>)"
  using aggregate_order_over_limit [of 5 "''X''"
      "\<lparr>pool_order_items =
        [\<lparr>customer = ''X'', name = ''a'', quantity = 2, one_item_volume = 3\<rparr>,
         \<lparr>customer = ''X'', name = ''c'', quantity = 1, one_item_volume = 4\<rparr>]\<rparr>" 9]
  by (simp add: pending_def OrderItem_total_volume_def)

text \<open>
  C7 (as the code behaves). From an empty pool, after \<open>add_item\<close> of an item of
  customer X with quantity 2 and unit volume 3 and of one with quantity 1 and unit
  volume 4, \<open>aggregate_order("X", 5, 10)\<close> returns an order with both items and
  empties the pool; the same call again does not return \<open>None\<close>: the customer has no
  pending items, both sums are 0 and within the limits, and the call returns an
  order with no items.
\<close>

theorem aggregate_order_scenario:
  "aggregate_order ''X'' 5 10
     (add_item \<lparr>customer = ''X'', name = n2, quantity = 1, one_item_volume = 4\<rparr>
       (add_item \<lparr>customer = ''X'', name = n1, quantity = 2, one_item_volume = 3\<rparr>
         OrderAggregator_init)) =
   Inr (Some \<lparr>order_items =
          [\<lparr>customer = ''X'', name = n1, quantity = 2, one_item_volume = 3\<rparr>,
           \<lparr>customer = ''X'', name = n2, quantity = 1, one_item_volume = 4\<rparr>],
          destination = None\<rparr>,
        \<lparr>pool_order_items = []\<rparr>)
   \<and> aggregate_order ''X'' 5 10 \<lparr>pool_order_items = []\<rparr> =
   Inr (Some \<lparr>order_items = [], destination = None\<rparr>, \<lparr>pool_order_items = []\<rparr>)"
  by (simp add: aggregate_order_def add_item_def OrderAggregator_init_def
      OrderItem_total_volume_def)

text \<open>
  The claim as the specification states it (the second call returns no order) fails:
  the second call returns \<open>Some\<close> order.
\<close>

theorem aggregate_order_scenario_counterexample:
  "aggregate_order ''X'' 5 10
     (add_item \<lparr>customer = ''X'', name = ''b'', quantity = 1, one_item_volume = 4\<rparr>
       (add_item \<lparr>customer = ''X'', name = ''a'', quantity = 2, one_item_volume = 3\<rparr>
         OrderAggregator_init)) =
   Inr (Some \<lparr>order_items =
          [\<lparr>customer = ''X'', name = ''a'', quantity = 2, one_item_volume = 3\<rparr>,
           \<lparr>customer = ''X'', name = ''b'', quantity = 1, one_item_volume = 4\<rparr>],
          destination = None\<rparr>,
        \<lparr>pool_order_items = []\<rparr>)
   \<and> aggregate_order ''X'' 5 10 \<lparr>pool_order_items = []\<rparr> \<noteq>
       Inr (None, \<lparr>pool_order_items = []\<rparr>)"
  by (simp add: aggregate_order_def add_item_def OrderAggregator_init_def
      OrderItem_total_volume_def)

section \<open>Round trip of \<open>remove_items\<close> and \<open>add_item\<close>\<close>

lemma list_remove_mset:
  "list_remove x xs = Some ys \<Longrightarrow> mset xs = add_mset x (mset ys)"
  by (induction xs arbitrary: ys) (auto split: if_splits)

lemma list_remove_member:
  "x \<in> set xs \<Longrightarrow> \<exists>ys. list_remove x xs = Some ys"
  by (induction xs) auto

lemma remove_each_succeeds:
  "mset items \<subseteq># mset (pool_order_items self) \<Longrightarrow>
   \<exists>self'. remove_each items self = Inr ((), self') \<and>
     mset (pool_order_items self) = mset items + mset (pool_order_items self')"
proof (induction items arbitrary: self)
  case Nil
  then show ?case by simp
next
  case (Cons a items)
  from Cons.prems have "a \<in># mset (pool_order_items self)"
    by (simp add: insert_subset_eq_iff)
  then obtain rest where rest: "list_remove a (pool_order_items self) = Some rest"
    using list_remove_member by fastforce
  then have split: "mset (pool_order_items self) = add_mset a (mset rest)"
    by (rule list_remove_mset)
  with Cons.prems have "mset items \<subseteq># mset (pool_order_items (self\<lparr>pool_order_items := rest\<rparr>))"
    by simp
  from Cons.IH [OF this] rest split show ?case by auto
qed

lemma add_each_pool:
  "pool_order_items (add_each items self) = pool_order_items self @ items"
  unfolding add_each_def
  by (induction items arbitrary: self) (simp_all add: add_item_def)

text \<open>
  C8 (as the code behaves). For every pool and every list of items, passed as a
  list object other than the pool's own list, that the pool contains with
  multiplicity (no item occurs more often in the list than in the pool),
  \<open>remove_items\<close> returns without raising, and \<open>add_item\<close> of each of the same items
  afterwards restores the content of the pool: the same items, each as often as
  before (their order in the list may differ).
\<close>

theorem remove_then_add_restores:
  assumes "mset items \<subseteq># mset (pool_order_items self)"
  shows "\<exists>self'. remove_items (Separate items) self = Inr ((), self') \<and>
           mset (pool_order_items (add_each items self')) = mset (pool_order_items self)"
proof -
  from remove_each_succeeds [OF assms] obtain self' where
    "remove_each items self = Inr ((), self')"
    "mset (pool_order_items self) = mset items + mset (pool_order_items self')"
    by blast
  then show ?thesis by (simp add: add_each_pool)
qed

theorem remove_then_add_restores_witness:
  "\<exists>self'.
     remove_items (Separate [\<lparr>customer = ''X'', name = ''a'', quantity = 2, one_item_volume = 3\<rparr>])
       \<lparr>pool_order_items =
          [\<lparr>customer = ''X'', name = ''a'', quantity = 2, one_item_volume = 3\<rparr>,
           \<lparr>customer = ''Y'', name = ''b'', quantity = 1, one_item_volume = 4\<rparr>]\<rparr>
       = Inr ((), self') \<and>
     mset (pool_order_items
       (add_each [\<lparr>customer = ''X'', name = ''a'', quantity = 2, one_item_volume = 3\<rparr>] self')) =
     mset [\<lparr>customer = ''X'', name = ''a'', quantity = 2, one_item_volume = 3\<rparr>,
           \<lparr>customer = ''Y'', name = ''b'', quantity = 1, one_item_volume = 4\<rparr>]"
  using remove_then_add_restores
    [of "[\<lparr>customer = ''X'', name = ''a'', quantity = 2, one_item_volume = 3\<rparr>]"
        "\<lparr>pool_order_items =
          [\<lparr>customer = ''X'', name = ''a'', quantity = 2, one_item_volume = 3\<rparr>,
           \<lparr>customer = ''Y'', name = ''b'', quantity = 1, one_item_volume = 4\<rparr>]\<rparr>"]
  by simp

text \<open>
  The claim as the specification states it fails on a list that names a pool item
  twice: every item of the list is in the pool, the second \<open>remove\<close> raises
  \<open>ValueError\<close> with the pool already emptied, and adding the two items then gives
  a pool of two items where there was one.
\<close>

theorem remove_then_add_restores_counterexample:
  "set [\<lparr>customer = ''X'', name = ''a'', quantity = 2, one_item_volume = 3\<rparr>,
        \<lparr>customer = ''X'', name = ''a'', quantity = 2, one_item_volume = 3\<rparr>]
     \<subseteq> set (pool_order_items \<lparr>pool_order_items =
         [\<lparr>customer = ''X'', name = ''a'', quantity = 2, one_item_volume = 3\<rparr>]\<rparr>)
   \<and> remove_items (Separate
       [\<lparr>customer = ''X'', name = ''a'', quantity = 2, one_item_volume = 3\<rparr>,
        \<lparr>customer = ''X'', name = ''a'', quantity = 2, one_item_volume = 3\<rparr>])
       \<lparr>pool_order_items =
         [\<lparr>customer = ''X'', name = ''a'', quantity = 2, one_item_volume = 3\<rparr>]\<rparr>
     = Inl (ValueError, \<lparr>pool_order_items = []\<rparr>)
   \<and> mset (pool_order_items (add_each
       [\<lparr>customer = ''X'', name = ''a'', quantity = 2, one_item_volume = 3\<rparr>,
        \<lparr>customer = ''X'', name = ''a'', quantity = 2, one_item_volume = 3\<rparr>]
       \<lparr>pool_order_items = []\<rparr>))
     \<noteq> mset [\<lparr>customer = ''X'', name = ''a'', quantity = 2, one_item_volume = 3\<rparr>]"
  by (simp add: add_each_def add_item_def)

text \<open>
  The round trip needs a list other than the pool's own. Called on the pool's list
  itself, \<open>remove_items\<close> does not raise and does not empty the pool: of three
  different items it removes the first and the third and leaves the second.
\<close>

lemma remove_items_pool_itself:
  "remove_items Pool_itself
     \<lparr>pool_order_items =
        [\<lparr>customer = ''X'', name = ''a'', quantity = 2, one_item_volume = 3\<rparr>,
         \<lparr>customer = ''X'', name = ''b'', quantity = 1, one_item_volume = 4\<rparr>,
         \<lparr>customer = ''Y'', name = ''c'', quantity = 5, one_item_volume = 1\<rparr>]\<rparr> =
   Inr ((), \<lparr>pool_order_items =
        [\<lparr>customer = ''X'', name = ''b'', quantity = 1, one_item_volume = 4\<rparr>]\<rparr>)"
  by (simp add: remove_from_itself.simps)

section \<open>Placing the orders one after the other\<close>

lemma place_orders_append:
  "place_orders cv (xs @ ys) cs = place_orders cv ys (place_orders cv xs cs)"
  by (induction xs arbitrary: cs) simp_all

section \<open>No order is dropped\<close>

lemma append_to_next_count:
  "append_to_next order dest cl = Some cl' \<Longrightarrow>
   sum_list (map (\<lambda>c. length (orders c)) cl') = Suc (sum_list (map (\<lambda>c. length (orders c)) cl))"
  by (induction cl arbitrary: cl') (auto split: if_splits)

lemma scan_items_count:
  "scan_items order cs = Some cs' \<Longrightarrow> count_orders cs' = Suc (count_orders cs)"
proof (induction cs arbitrary: cs')
  case Nil
  then show ?case by simp
next
  case (Cons entry cs)
  obtain dest cl where entry: "entry = (dest, cl)" by (cases entry)
  show ?case
  proof (cases "append_to_next order dest cl")
    case None
    with Cons.prems entry obtain rest where
      "scan_items order cs = Some rest" "cs' = (dest, cl) # rest"
      by auto
    with Cons.IH [of rest] entry show ?thesis
      by (simp add: count_orders_def all_containers_def)
  next
    case (Some cl')
    with Cons.prems entry have "cs' = (dest, cl') # cs" by simp
    with append_to_next_count [OF Some] entry show ?thesis
      by (simp add: count_orders_def all_containers_def)
  qed
qed

lemma dict_append_count:
  "count_orders (dict_append cs key c) = count_orders cs + length (orders c)"
  by (induction cs key c rule: dict_append.induct)
     (simp_all add: count_orders_def all_containers_def)

lemma place_order_count:
  "count_orders (place_order cv order cs) = Suc (count_orders cs)"
  by (simp add: place_order_def scan_items_count dict_append_count split: option.split)

lemma place_orders_count:
  "count_orders (place_orders cv order_list cs) = count_orders cs + length order_list"
  by (induction order_list arbitrary: cs) (simp_all add: place_order_count)

text \<open>
  C3. \<open>prepare_containers\<close> never drops an order: for every list of input orders,
  the containers of the returned dictionary hold, in total, as many orders as were
  given; and for an aggregator whose \<open>not_used_orders\<close> is empty, as \<open>__init__\<close> leaves
  it, that total plus the number of orders in \<open>not_used_orders\<close> after the call is
  the number of input orders.
\<close>

theorem prepare_containers_never_drops:
  "count_orders (fst (prepare_containers self order_list)) = length order_list
   \<and> (not_used_orders self = [] \<longrightarrow>
      count_orders (fst (prepare_containers self order_list))
        + length (not_used_orders (snd (prepare_containers self order_list)))
      = length order_list)"
proof -
  have "count_orders [] = 0" by (simp add: count_orders_def all_containers_def)
  then show ?thesis by (simp add: prepare_containers_def place_orders_count)
qed

theorem prepare_containers_never_drops_witness:
  "not_used_orders (ContainerAggregator_init 10) = []
   \<and> count_orders (fst (prepare_containers (ContainerAggregator_init 10)
        [\<lparr>order_items = [\<lparr>customer = ''X'', name = ''a'', quantity = 2, one_item_volume = 3\<rparr>],
          destination = Some ''A''\<rparr>,
         \<lparr>order_items = [\<lparr>customer = ''Y'', name = ''b'', quantity = 3, one_item_volume = 2\<rparr>],
          destination = Some ''A''\<rparr>]))
     + length (not_used_orders (snd (prepare_containers (ContainerAggregator_init 10)
        [\<lparr>order_items = [\<lparr>customer = ''X'', name = ''a'', quantity = 2, one_item_volume = 3\<rparr>],
          destination = Some ''A''\<rparr>,
         \<lparr>order_items = [\<lparr>customer = ''Y'', name = ''b'', quantity = 3, one_item_volume = 2\<rparr>],
          destination = Some ''A''\<rparr>])))
     = 2"
  using prepare_containers_never_drops [of "ContainerAggregator_init 10"
        "[\<lparr>order_items = [\<lparr>customer = ''X'', name = ''a'', quantity = 2, one_item_volume = 3\<rparr>],
          destination = Some ''A''\<rparr>,
         \<lparr>order_items = [\<lparr>customer = ''Y'', name = ''b'', quantity = 3, one_item_volume = 2\<rparr>],
          destination = Some ''A''\<rparr>]"]
  by (simp add: prepare_containers_def place_order_def volume_left_def Order_total_volume_def
      OrderItem_total_volume_def ContainerAggregator_init_def count_orders_def all_containers_def)

section \<open>Orders stay in the bucket of their destination\<close>

lemma append_to_next_dest:
  "append_to_next order dest cl = Some cl' \<Longrightarrow>
   \<forall>c \<in> set cl. \<forall>x \<in> set (orders c). destination x = dest \<Longrightarrow>
   \<forall>c \<in> set cl'. \<forall>x \<in> set (orders c). destination x = dest"
  by (induction cl arbitrary: cl') (auto split: if_splits)

lemma scan_items_dest:
  "scan_items order cs = Some cs' \<Longrightarrow> dest_ok cs \<Longrightarrow> dest_ok cs'"
proof (induction cs arbitrary: cs')
  case Nil
  then show ?case by simp
next
  case (Cons entry cs)
  obtain dest cl where entry: "entry = (dest, cl)" by (cases entry)
  from Cons.prems(2) entry have tl: "dest_ok cs"
    and hd: "\<forall>c \<in> set cl. \<forall>x \<in> set (orders c). destination x = dest"
    by (auto simp: dest_ok_def)
  show ?case
  proof (cases "append_to_next order dest cl")
    case None
    with Cons.prems entry obtain rest where
      "scan_items order cs = Some rest" "cs' = (dest, cl) # rest"
      by auto
    with Cons.IH [of rest] tl hd show ?thesis
      by (auto simp: dest_ok_def)
  next
    case (Some cl')
    with Cons.prems entry have "cs' = (dest, cl') # cs" by simp
    with append_to_next_dest [OF Some hd] tl show ?thesis
      by (auto simp: dest_ok_def)
  qed
qed

lemma dict_append_dest:
  "dest_ok cs \<Longrightarrow> \<forall>x \<in> set (orders c). destination x = key \<Longrightarrow>
   dest_ok (dict_append cs key c)"
  by (induction cs key c rule: dict_append.induct) (auto simp: dest_ok_def)

lemma place_order_dest:
  "dest_ok cs \<Longrightarrow> dest_ok (place_order cv order cs)"
  by (auto simp: place_order_def scan_items_dest dict_append_dest split: option.split)

lemma place_orders_dest:
  "dest_ok cs \<Longrightarrow> dest_ok (place_orders cv order_list cs)"
  by (induction order_list arbitrary: cs) (simp_all add: place_order_dest)

text \<open>
  C10. In the dictionary that \<open>prepare_containers\<close> returns, every order held by a
  container of the list stored under a key has that key as its destination.
\<close>

theorem prepare_containers_destinations:
  "\<forall>(dest, cl) \<in> set (fst (prepare_containers self order_list)).
     \<forall>c \<in> set cl. \<forall>order \<in> set (orders c). destination order = dest"
proof -
  have "dest_ok (place_orders (container_volume self) order_list [])"
    by (rule place_orders_dest) (simp add: dest_ok_def)
  then show ?thesis by (simp add: prepare_containers_def dest_ok_def)
qed

theorem prepare_containers_destinations_witness:
  "fst (prepare_containers (ContainerAggregator_init 10)
        [\<lparr>order_items = [\<lparr>customer = ''X'', name = ''a'', quantity = 2, one_item_volume = 3\<rparr>],
          destination = Some ''A''\<rparr>,
         \<lparr>order_items = [\<lparr>customer = ''Y'', name = ''b'', quantity = 3, one_item_volume = 2\<rparr>],
          destination = Some ''B''\<rparr>,
         \<lparr>order_items = [\<lparr>customer = ''Z'', name = ''c'', quantity = 1, one_item_volume = 4\<rparr>],
          destination = Some ''A''\<rparr>]) =
   [(Some ''A'', [\<lparr>volume = 10, orders =
        [\<lparr>order_items = [\<lparr>customer = ''X'', name = ''a'', quantity = 2, one_item_volume = 3\<rparr>],
          destination = Some ''A''\<rparr>,
         \<lparr>order_items = [\<lparr>customer = ''Z'', name = ''c'', quantity = 1, one_item_volume = 4\<rparr>],
          destination = Some ''A''\<rparr>]\<rparr>]),
    (Some ''B'', [\<lparr>volume = 10, orders =
        [\<lparr>order_items = [\<lparr>customer = ''Y'', name = ''b'', quantity = 3, one_item_volume = 2\<rparr>],
          destination = Some ''B''\<rparr>]\<rparr>])]"
  using prepare_containers_destinations [of "ContainerAggregator_init 10"
        "[\<lparr>order_items = [\<lparr>customer = ''X'', name = ''a'', quantity = 2, one_item_volume = 3\<rparr>],
          destination = Some ''A''\<rparr>,
         \<lparr>order_items = [\<lparr>customer = ''Y'', name = ''b'', quantity = 3, one_item_volume = 2\<rparr>],
          destination = Some ''B''\<rparr>,
         \<lparr>order_items = [\<lparr>customer = ''Z'', name = ''c'', quantity = 1, one_item_volume = 4\<rparr>],
          destination = Some ''A''\<rparr>]"]
  by (simp add: prepare_containers_def place_order_def volume_left_def Order_total_volume_def
      OrderItem_total_volume_def ContainerAggregator_init_def)

section \<open>Remaining volume\<close>

lemma volume_left_append:
  "volume_left (c\<lparr>orders := orders c @ [order]\<rparr>) = volume_left c - Order_total_volume order"
  by (simp add: volume_left_def)

lemma append_to_next_nonneg:
  "append_to_next order dest cl = Some cl' \<Longrightarrow>
   \<forall>c \<in> set cl. 0 \<le> volume_left c \<Longrightarrow> \<forall>c \<in> set cl'. 0 \<le> volume_left c"
  by (induction cl arbitrary: cl') (auto simp: volume_left_append split: if_splits)

lemma scan_items_nonneg:
  "scan_items order cs = Some cs' \<Longrightarrow> nonneg_left cs \<Longrightarrow> nonneg_left cs'"
proof (induction cs arbitrary: cs')
  case Nil
  then show ?case by simp
next
  case (Cons entry cs)
  obtain dest cl where entry: "entry = (dest, cl)" by (cases entry)
  from Cons.prems(2) entry have tl: "nonneg_left cs"
    and hd: "\<forall>c \<in> set cl. 0 \<le> volume_left c"
    by (auto simp: nonneg_left_def all_containers_def)
  show ?case
  proof (cases "append_to_next order dest cl")
    case None
    with Cons.prems entry obtain rest where
      "scan_items order cs = Some rest" "cs' = (dest, cl) # rest"
      by auto
    with Cons.IH [of rest] tl hd show ?thesis
      by (auto simp: nonneg_left_def all_containers_def)
  next
    case (Some cl')
    with Cons.prems entry have "cs' = (dest, cl') # cs" by simp
    with append_to_next_nonneg [OF Some hd] tl show ?thesis
      by (auto simp: nonneg_left_def all_containers_def)
  qed
qed

lemma dict_append_containers:
  "set (all_containers (dict_append cs key c)) = insert c (set (all_containers cs))"
  by (induction cs key c rule: dict_append.induct) (auto simp: all_containers_def)

lemma place_order_nonneg:
  "nonneg_left cs \<Longrightarrow> Order_total_volume order \<le> cv \<Longrightarrow> nonneg_left (place_order cv order cs)"
  by (auto simp: place_order_def scan_items_nonneg split: option.split)
     (auto simp: nonneg_left_def dict_append_containers volume_left_def)

lemma place_orders_nonneg:
  "nonneg_left cs \<Longrightarrow> \<forall>order \<in> set order_list. Order_total_volume order \<le> cv \<Longrightarrow>
   nonneg_left (place_orders cv order_list cs)"
  by (induction order_list arbitrary: cs) (simp_all add: place_order_nonneg)

text \<open>
  C5. For every container, \<open>volume_left\<close> is its volume minus the sum of the total
  volumes of the orders it holds; and when every input order's total volume is at
  most the configured container volume, every container of the dictionary that
  \<open>prepare_containers\<close> returns has a \<open>volume_left\<close> of at least 0.
\<close>

theorem volume_left_never_negative:
  "volume_left c = volume c - (\<Sum>order\<leftarrow>orders c. Order_total_volume order)
   \<and> ((\<forall>order \<in> set order_list. Order_total_volume order \<le> container_volume self) \<longrightarrow>
      (\<forall>(dest, cl) \<in> set (fst (prepare_containers self order_list)).
         \<forall>c' \<in> set cl. 0 \<le> volume_left c'))"
proof -
  have "nonneg_left (place_orders (container_volume self) order_list [])"
    if "\<forall>order \<in> set order_list. Order_total_volume order \<le> container_volume self"
    using that by (intro place_orders_nonneg) (simp_all add: nonneg_left_def all_containers_def)
  then show ?thesis
    by (auto simp: prepare_containers_def nonneg_left_def all_containers_def volume_left_def)
qed

theorem volume_left_never_negative_witness:
  "Order_total_volume
     \<lparr>order_items = [\<lparr>customer = ''X'', name = ''a'', quantity = 2, one_item_volume = 3\<rparr>],
      destination = Some ''A''\<rparr> \<le> container_volume (ContainerAggregator_init 10)
   \<and> map (map volume_left \<circ> snd) (fst (prepare_containers (ContainerAggregator_init 10)
        [\<lparr>order_items = [\<lparr>customer = ''X'', name = ''a'', quantity = 2, one_item_volume = 3\<rparr>],
          destination = Some ''A''\<rparr>,
         \<lparr>order_items = [\<lparr>customer = ''X'', name = ''a'', quantity = 2, one_item_volume = 3\<rparr>],
          destination = Some ''A''\<rparr>])) = [[4, 4]]"
  using volume_left_never_negative [of "\<lparr>volume = 10, orders = []\<rparr>"
        "[\<lparr>order_items = [\<lparr>customer = ''X'', name = ''a'', quantity = 2, one_item_volume = 3\<rparr>],
          destination = Some ''A''\<rparr>,
         \<lparr>order_items = [\<lparr>customer = ''X'', name = ''a'', quantity = 2, one_item_volume = 3\<rparr>],
          destination = Some ''A''\<rparr>]" "ContainerAggregator_init 10"]
  by (simp add: prepare_containers_def place_order_def volume_left_def Order_total_volume_def
      OrderItem_total_volume_def ContainerAggregator_init_def)

section \<open>The keys of the dictionary stay distinct\<close>

lemma scan_items_keys:
  "scan_items order cs = Some cs' \<Longrightarrow> map fst cs' = map fst cs"
  by (induction cs arbitrary: cs') (auto split: option.splits)

lemma dict_append_keys:
  "map fst (dict_append cs key c) =
     (if key \<in> set (map fst cs) then map fst cs else map fst cs @ [key])"
  by (induction cs key c rule: dict_append.induct) auto

lemma place_order_distinct:
  "distinct (map fst cs) \<Longrightarrow> distinct (map fst (place_order cv order cs))"
  by (auto simp: place_order_def scan_items_keys dict_append_keys split: option.split)

lemma place_orders_distinct:
  "distinct (map fst cs) \<Longrightarrow> distinct (map fst (place_orders cv order_list cs))"
  by (induction order_list arbitrary: cs) (simp_all add: place_order_distinct)

section \<open>First fit\<close>

lemma append_to_next_other:
  "destination order \<noteq> dest \<Longrightarrow> append_to_next order dest cl = None"
  by (induction cl) simp_all

lemma append_to_next_first:
  "i < length cl \<Longrightarrow> Order_total_volume order \<le> volume_left (cl ! i) \<Longrightarrow>
   \<forall>j<i. \<not> Order_total_volume order \<le> volume_left (cl ! j) \<Longrightarrow>
   append_to_next order (destination order) cl =
     Some (cl[i := (cl ! i)\<lparr>orders := orders (cl ! i) @ [order]\<rparr>])"
proof (induction cl arbitrary: i)
  case Nil
  then show ?case by simp
next
  case (Cons c cl)
  show ?case
  proof (cases i)
    case 0
    with Cons.prems show ?thesis by simp
  next
    case (Suc n)
    with Cons.prems have "\<not> Order_total_volume order \<le> volume_left c" by auto
    moreover from Suc Cons.prems have "n < length cl"
      "Order_total_volume order \<le> volume_left (cl ! n)"
      "\<forall>j<n. \<not> Order_total_volume order \<le> volume_left (cl ! j)"
      by auto
    ultimately show ?thesis using Cons.IH [of n] Suc by simp
  qed
qed


lemma map_other_keys:
  "key \<notin> fst ` set cs \<Longrightarrow>
   map (\<lambda>(dest, l). if dest = key then (dest, f l) else (dest, l)) cs = cs"
  by (induction cs) auto

lemma scan_items_first:
  "distinct (map fst cs) \<Longrightarrow> map_of cs (destination order) = Some cl \<Longrightarrow>
   append_to_next order (destination order) cl = Some (f cl) \<Longrightarrow>
   scan_items order cs =
     Some (map (\<lambda>(dest, l). if dest = destination order then (dest, f l) else (dest, l)) cs)"
proof (induction cs)
  case Nil
  then show ?case by simp
next
  case (Cons entry cs)
  obtain dest l where entry: "entry = (dest, l)" by (cases entry)
  show ?case
  proof (cases "dest = destination order")
    case True
    with Cons.prems entry have "l = cl" "destination order \<notin> fst ` set cs" by auto
    with True entry Cons.prems(3) show ?thesis
      by (simp add: map_other_keys)
  next
    case False
    then have "append_to_next order dest l = None"
      by (simp add: append_to_next_other)
    moreover from False Cons.prems entry have
      "distinct (map fst cs)" "map_of cs (destination order) = Some cl" by auto
    ultimately show ?thesis using Cons.IH Cons.prems(3) entry False by simp
  qed
qed


lemma bucket_Some:
  "i < length (bucket cs dest) \<Longrightarrow> map_of cs dest = Some (bucket cs dest)"
  by (cases "map_of cs dest") (simp_all add: bucket_def)

lemma place_order_first_fit:
  assumes "distinct (map fst cs)"
    and "i < length (bucket cs (destination order))"
    and "Order_total_volume order \<le> volume_left (bucket cs (destination order) ! i)"
    and "\<forall>j<i. \<not> Order_total_volume order \<le> volume_left (bucket cs (destination order) ! j)"
  shows "place_order cv order cs =
     map (\<lambda>(dest, l). if dest = destination order
            then (dest, l[i := (l ! i)\<lparr>orders := orders (l ! i) @ [order]\<rparr>])
            else (dest, l)) cs"
proof -
  let ?cl = "bucket cs (destination order)"
  let ?f = "\<lambda>l. l[i := (l ! i)\<lparr>orders := orders (l ! i) @ [order]\<rparr>]"
  have "map_of cs (destination order) = Some ?cl"
    using assms(2) by (rule bucket_Some)
  moreover have "append_to_next order (destination order) ?cl = Some (?f ?cl)"
    using assms(2-4) by (rule append_to_next_first)
  ultimately have "scan_items order cs =
     Some (map (\<lambda>(dest, l). if dest = destination order then (dest, ?f l) else (dest, l)) cs)"
    using assms(1) by (intro scan_items_first)
  then show ?thesis by (simp add: place_order_def)
qed

text \<open>
  C6. \<open>prepare_containers\<close> is first fit. Let \<open>cs\<close> be the dictionary after the
  orders \<open>pre\<close>, and \<open>cl\<close> the containers under the next order's destination, in the
  order they were created. If the container at index \<open>i\<close> of \<open>cl\<close> has room for the
  order and none before it has, the order is appended to exactly that container:
  the dictionary after the order is \<open>cs\<close> with that one container changed, keys and
  all other containers as they were. In particular, with containers \<open>A\<close>
  (\<open>volume_left\<close> 5) and \<open>B\<close> (\<open>volume_left\<close> 10) created in that order for one
  destination, the loop body puts an order of volume 5 for that destination into
  \<open>A\<close> and leaves \<open>B\<close> alone.
\<close>

theorem prepare_containers_first_fit:
  assumes "cs = fst (prepare_containers self pre)"
    and "cl = bucket cs (destination order)"
  shows "(i < length cl \<and> Order_total_volume order \<le> volume_left (cl ! i)
          \<and> (\<forall>j<i. \<not> Order_total_volume order \<le> volume_left (cl ! j)) \<longrightarrow>
          fst (prepare_containers self (pre @ [order])) =
            map (\<lambda>(dest, l). if dest = destination order
                   then (dest, l[i := (l ! i)\<lparr>orders := orders (l ! i) @ [order]\<rparr>])
                   else (dest, l)) cs)
       \<and> (volume_left A = 5 \<and> volume_left B = 10 \<and> Order_total_volume order' = 5 \<longrightarrow>
          place_order cv order' [(destination order', [A, B])] =
            [(destination order', [A\<lparr>orders := orders A @ [order']\<rparr>, B])])"
proof (intro conjI impI)
  assume fit: "i < length cl \<and> Order_total_volume order \<le> volume_left (cl ! i)
          \<and> (\<forall>j<i. \<not> Order_total_volume order \<le> volume_left (cl ! j))"
  have "distinct (map fst cs)"
    unfolding assms(1) prepare_containers_def by (simp add: place_orders_distinct)
  with fit show "fst (prepare_containers self (pre @ [order])) =
            map (\<lambda>(dest, l). if dest = destination order
                   then (dest, l[i := (l ! i)\<lparr>orders := orders (l ! i) @ [order]\<rparr>])
                   else (dest, l)) cs"
    using place_order_first_fit [of cs i order "container_volume self"]
    by (simp add: assms prepare_containers_def place_orders_append)
next
  assume "volume_left A = 5 \<and> volume_left B = 10 \<and> Order_total_volume order' = 5"
  then show "place_order cv order' [(destination order', [A, B])] =
            [(destination order', [A\<lparr>orders := orders A @ [order']\<rparr>, B])]"
    by (simp add: place_order_def)
qed

theorem prepare_containers_first_fit_witness:
  "fst (prepare_containers (ContainerAggregator_init 10)
     ([\<lparr>order_items = [\<lparr>customer = ''X'', name = ''a'', quantity = 2, one_item_volume = 4\<rparr>],
        destination = Some ''A''\<rparr>,
       \<lparr>order_items = [\<lparr>customer = ''Y'', name = ''b'', quantity = 2, one_item_volume = 3\<rparr>],
        destination = Some ''A''\<rparr>] @
      [\<lparr>order_items = [\<lparr>customer = ''Z'', name = ''c'', quantity = 3, one_item_volume = 1\<rparr>],
        destination = Some ''A''\<rparr>])) =
   [(Some ''A'',
     [\<lparr>volume = 10, orders =
        [\<lparr>order_items = [\<lparr>customer = ''X'', name = ''a'', quantity = 2, one_item_volume = 4\<rparr>],
          destination = Some ''A''\<rparr>]\<rparr>,
      \<lparr>volume = 10, orders =
        [\<lparr>order_items = [\<lparr>customer = ''Y'', name = ''b'', quantity = 2, one_item_volume = 3\<rparr>],
          destination = Some ''A''\<rparr>,
         \<lparr>order_items = [\<lparr>customer = ''Z'', name = ''c'', quantity = 3, one_item_volume = 1\<rparr>],
          destination = Some ''A''\<rparr>]\<rparr>])]
   \<and> place_order 10
       \<lparr>order_items = [\<lparr>customer = ''Z'', name = ''d'', quantity = 1, one_item_volume = 5\<rparr>],
        destination = Some ''A''\<rparr>
       [(Some ''A'', [\<lparr>volume = 5, orders = []\<rparr>, \<lparr>volume = 10, orders = []\<rparr>])] =
     [(Some ''A'',
       [\<lparr>volume = 5, orders =
          [\<lparr>order_items = [\<lparr>customer = ''Z'', name = ''d'', quantity = 1, one_item_volume = 5\<rparr>],
            destination = Some ''A''\<rparr>]\<rparr>,
        \<lparr>volume = 10, orders = []\<rparr>])]"
  using prepare_containers_first_fit [of
      "[(Some ''A'',
         [\<lparr>volume = 10, orders =
            [\<lparr>order_items = [\<lparr>customer = ''X'', name = ''a'', quantity = 2, one_item_volume = 4\<rparr>],
              destination = Some ''A''\<rparr>]\<rparr>,
          \<lparr>volume = 10, orders =
            [\<lparr>order_items = [\<lparr>customer = ''Y'', name = ''b'', quantity = 2, one_item_volume = 3\<rparr>],
              destination = Some ''A''\<rparr>]\<rparr>])]"
      "ContainerAggregator_init 10"
      "[\<lparr>order_items = [\<lparr>customer = ''X'', name = ''a'', quantity = 2, one_item_volume = 4\<rparr>],
        destination = Some ''A''\<rparr>,
       \<lparr>order_items = [\<lparr>customer = ''Y'', name = ''b'', quantity = 2, one_item_volume = 3\<rparr>],
        destination = Some ''A''\<rparr>]"
      "[\<lparr>volume = 10, orders =
            [\<lparr>order_items = [\<lparr>customer = ''X'', name = ''a'', quantity = 2, one_item_volume = 4\<rparr>],
              destination = Some ''A''\<rparr>]\<rparr>,
          \<lparr>volume = 10, orders =
            [\<lparr>order_items = [\<lparr>customer = ''Y'', name = ''b'', quantity = 2, one_item_volume = 3\<rparr>],
              destination = Some ''A''\<rparr>]\<rparr>]"
      "\<lparr>order_items = [\<lparr>customer = ''Z'', name = ''c'', quantity = 3, one_item_volume = 1\<rparr>],
        destination = Some ''A''\<rparr>"
      1
      "\<lparr>volume = 5, orders = []\<rparr>" "\<lparr>volume = 10, orders = []\<rparr>"
      "\<lparr>order_items = [\<lparr>customer = ''Z'', name = ''d'', quantity = 1, one_item_volume = 5\<rparr>],
        destination = Some ''A''\<rparr>" 10]
  by (simp add: prepare_containers_def place_order_def volume_left_def Order_total_volume_def
      OrderItem_total_volume_def ContainerAggregator_init_def bucket_def)

section \<open>Orders larger than a container\<close>














section \<open>The field \<open>not_used_orders\<close>\<close>

text \<open>
  C9. \<open>prepare_containers\<close> never modifies \<open>not_used_orders\<close>: for every aggregator
  and every list of input orders, the aggregator after the call is the one before
  it, and so is its \<open>not_used_orders\<close> list.
\<close>

theorem prepare_containers_keeps_not_used_orders:
  "snd (prepare_containers self order_list) = self
   \<and> not_used_orders (snd (prepare_containers self order_list)) = not_used_orders self"
  by (simp add: prepare_containers_def)

end
